theory Spec2Isabelle
  imports Main "HOL-Library.Word"
begin

section \<open>JavaScript strings\<close>

text \<open>
  A JavaScript string is a sequence of UTF-16 code units; \<open>length\<close>, \<open>split\<close>,
  \<open>includes\<close> and regular expressions without the \<open>u\<close> flag all work on code units.
  \<open>lit\<close> reads an ASCII literal as such a sequence.
\<close>

type_synonym code_unit = "16 word"
type_synonym js_string = "code_unit list"

definition lit :: "string \<Rightarrow> js_string" where
  "lit s = map of_char s"

abbreviation NL :: code_unit where "NL \<equiv> 0x0A"
abbreviation SPACE :: code_unit where "SPACE \<equiv> 0x20"
abbreviation HASH :: code_unit where "HASH \<equiv> 0x23"
abbreviation AT :: code_unit where "AT \<equiv> 0x40"

text \<open>The class \<open>\w\<close> of a regular expression: \<open>[A-Za-z0-9_]\<close>; \<open>\W\<close> is its complement.\<close>

definition is_word_char :: "code_unit \<Rightarrow> bool" where
  "is_word_char c =
     ((0x61 \<le> c \<and> c \<le> 0x7A) \<or> (0x41 \<le> c \<and> c \<le> 0x5A) \<or> (0x30 \<le> c \<and> c \<le> 0x39) \<or> c = 0x5F)"

text \<open>The class \<open>[a-zA-Z0-9_-]\<close>.\<close>

definition is_name_char :: "code_unit \<Rightarrow> bool" where
  "is_name_char c =
     ((0x61 \<le> c \<and> c \<le> 0x7A) \<or> (0x41 \<le> c \<and> c \<le> 0x5A) \<or> (0x30 \<le> c \<and> c \<le> 0x39) \<or> c = 0x5F
      \<or> c = 0x2D)"

text \<open>
  The characters that \<open>.\<close> does not match: line feed, carriage return, U+2028, U+2029.
\<close>

definition is_line_terminator :: "code_unit \<Rightarrow> bool" where
  "is_line_terminator c = (c = 0x0A \<or> c = 0x0D \<or> c = 0x2028 \<or> c = 0x2029)"

text \<open>
  White space and line terminators, as \<open>String.prototype.trim\<close> strips them.
\<close>

definition is_js_space :: "code_unit \<Rightarrow> bool" where
  "is_js_space c =
     (c = 0x09 \<or> c = 0x0A \<or> c = 0x0B \<or> c = 0x0C \<or> c = 0x0D \<or> c = 0x20 \<or> c = 0xA0
      \<or> c = 0x1680 \<or> (0x2000 \<le> c \<and> c \<le> 0x200A) \<or> c = 0x2028 \<or> c = 0x2029
      \<or> c = 0x202F \<or> c = 0x205F \<or> c = 0x3000 \<or> c = 0xFEFF)"

definition trim :: "js_string \<Rightarrow> js_string" where
  "trim s = rev (dropWhile is_js_space (rev (dropWhile is_js_space s)))"

text \<open>\<open>s.startsWith(p)\<close> and \<open>s.includes(p)\<close>.\<close>

fun starts_with :: "js_string \<Rightarrow> js_string \<Rightarrow> bool" where
  "starts_with s [] = True"
| "starts_with [] (p # ps) = False"
| "starts_with (c # cs) (p # ps) = (c = p \<and> starts_with cs ps)"

fun includes_str :: "js_string \<Rightarrow> js_string \<Rightarrow> bool" where
  "includes_str [] p = starts_with [] p"
| "includes_str (c # cs) p = (starts_with (c # cs) p \<or> includes_str cs p)"

text \<open>
  \<open>s.split(sep)\<close> for a separator of one code unit: the pieces between the separators,
  \<open>[""]\<close> for the empty string. \<open>xs.join(sep)\<close> is its inverse; it gives \<open>""\<close> for the
  empty array.
\<close>

fun split_on :: "code_unit \<Rightarrow> js_string \<Rightarrow> js_string list" where
  "split_on sep [] = [[]]"
| "split_on sep (c # cs) =
     (let r = split_on sep cs in if c = sep then [] # r else (c # hd r) # tl r)"

fun join_with :: "code_unit \<Rightarrow> js_string list \<Rightarrow> js_string" where
  "join_with sep [] = []"
| "join_with sep [x] = x"
| "join_with sep (x # y # ys) = x @ sep # join_with sep (y # ys)"

section \<open>removeMentions\<close>

text \<open>
  \<^verbatim>\<open>content.replace(/(^|\W)(@[a-zA-Z0-9_-]{1,64})/g, '$1$2')\<close>

  \<open>mention_name\<close> matches the second group at the head of its argument: an at-sign and
  the longest run of 1 to 64 name characters; it returns the matched text and the rest.
  \<open>mention_at\<close> matches the whole expression at the current position: the first group is
  empty at index 0 of the input (\<open>^\<close>, tried first) or one non-word character.
  \<open>replace_mentions\<close> is the global replacement: the leftmost match from the current
  position is replaced by \<open>$1$2\<close>, the two groups, and the search goes on after it.
\<close>

definition mention_name :: "js_string \<Rightarrow> (js_string \<times> js_string) option" where
  "mention_name s =
     (case s of
        [] \<Rightarrow> None
      | c # cs \<Rightarrow>
          if c = AT then
            (let n = length (takeWhile is_name_char (take 64 cs))
             in if 1 \<le> n then Some (c # take n cs, drop n cs) else None)
          else None)"

definition mention_at :: "bool \<Rightarrow> js_string \<Rightarrow> (js_string \<times> js_string \<times> js_string) option" where
  "mention_at at_start s =
     (case (if at_start then mention_name s else None) of
        Some (g2, rest) \<Rightarrow> Some ([], g2, rest)
      | None \<Rightarrow>
          (case s of
             [] \<Rightarrow> None
           | c # cs \<Rightarrow>
               if \<not> is_word_char c then
                 (case mention_name cs of
                    Some (g2, rest) \<Rightarrow> Some ([c], g2, rest)
                  | None \<Rightarrow> None)
               else None))"

lemma mention_name_shorter: "mention_name s = Some (g2, rest) \<Longrightarrow> length rest < length s"
  by (auto simp: mention_name_def Let_def split: list.splits if_splits)

lemma mention_at_shorter: "mention_at b s = Some (g1, g2, rest) \<Longrightarrow> length rest < length s"
  by (auto simp: mention_at_def split: option.splits list.splits if_splits
      dest: mention_name_shorter)

function replace_mentions :: "bool \<Rightarrow> js_string \<Rightarrow> js_string" where
  "replace_mentions at_start s =
     (case mention_at at_start s of
        Some (g1, g2, rest) \<Rightarrow> g1 @ g2 @ replace_mentions False rest
      | None \<Rightarrow>
          (case s of
             [] \<Rightarrow> []
           | c # cs \<Rightarrow> c # replace_mentions False cs))"
  by pat_completeness auto
termination
  by (relation "measure (\<lambda>(b, s). length s)") (auto dest: mention_at_shorter)

definition removeMentions :: "js_string \<Rightarrow> js_string" where
  "removeMentions content = replace_mentions True content"

section \<open>The context budget\<close>

datatype role = System | User | Assistant

record message =
  role :: role
  name :: "js_string option"
  content :: js_string

definition count_chars :: "message list \<Rightarrow> nat" where
  "count_chars messages = foldl (\<lambda>total_chars m. total_chars + length (content m)) 0 messages"

text \<open>
  The limit is the number 25000 or the text of an environment variable, which \<open>>\<close>
  converts to a number. \<open>Some n\<close> is a limit that a count exceeds iff it exceeds the
  integer \<open>n\<close>; \<open>None\<close> is a limit that no count exceeds (text that is not a number).
\<close>

type_synonym char_limit = "int option"

definition exceeds :: "nat \<Rightarrow> char_limit \<Rightarrow> bool" where
  "exceeds n limit = (case limit of None \<Rightarrow> False | Some l \<Rightarrow> l < int n)"

function limit_chars :: "message list \<Rightarrow> char_limit \<Rightarrow> message list" where
  "limit_chars messages limit =
     (if exceeds (count_chars messages) limit \<and> 5 < length messages
      then limit_chars (tl messages) limit
      else messages)"
  by pat_completeness auto
termination
  by (relation "measure (\<lambda>(messages, limit). length messages)") auto

section \<open>The completion service's answer\<close>

datatype error = ENOENT | EACCES | ForumError | ServiceError

text \<open>
  \<^verbatim>\<open>content.replace(/<\|.*\|>$/, '')\<close>: the leftmost \<open><|\<close> that is followed, with no line
  terminator in between, by a \<open>|>\<close> ending the string, is removed with all that follows.
  \<open>dots_to_end\<close> matches \<open>.*\|>$\<close> at the head of its argument.
\<close>

fun dots_to_end :: "js_string \<Rightarrow> bool" where
  "dots_to_end [] = False"
| "dots_to_end (c # cs) = ((\<not> is_line_terminator c \<and> dots_to_end cs) \<or> c # cs = lit ''|>'')"

fun strip_sentinel :: "js_string \<Rightarrow> js_string" where
  "strip_sentinel [] = []"
| "strip_sentinel (c # cs) =
     (if starts_with (c # cs) (lit ''<|'') \<and> dots_to_end (drop 2 (c # cs)) then []
      else c # strip_sentinel cs)"

text \<open>
  \<open>generateContent\<close>: the request to the completion service either fails (the request,
  the parsing of the answer or the path \<open>choices[0].message\<close>) or gives the field
  \<open>content\<close> of the first choice, \<open>None\<close> when it is absent. The service is a parameter.
\<close>

type_synonym service = "message list \<Rightarrow> error + js_string option"

definition generateContent :: "service \<Rightarrow> message list \<Rightarrow> error + js_string option" where
  "generateContent service messages =
     (case service messages of
        Inl e \<Rightarrow> Inl e
      | Inr field \<Rightarrow>
          (case field of
             None \<Rightarrow> Inr None
           | Some c \<Rightarrow> if c \<noteq> [] then Inr (Some (strip_sentinel c)) else Inr (Some c)))"

section \<open>convertHtmlToMarkdown\<close>

text \<open>
  \<^verbatim>\<open>markdown.replace(/!\[(.*?)\]\((.*?)\)/g, (match, altText) => ...)\<close>

  \<open>lazy_to_rparen\<close> matches \<open>(.*?)\)\<close> and \<open>lazy_alt\<close> matches \<open>(.*?)\]\((.*?)\)\<close> at the head
  of the argument, shortest group first, and return the groups and the rest of the input.
\<close>

fun lazy_to_rparen :: "js_string \<Rightarrow> (js_string \<times> js_string) option" where
  "lazy_to_rparen [] = None"
| "lazy_to_rparen (c # cs) =
     (if c = 0x29 then Some ([], cs)
      else if is_line_terminator c then None
      else (case lazy_to_rparen cs of
              None \<Rightarrow> None
            | Some (url, rest) \<Rightarrow> Some (c # url, rest)))"

fun lazy_alt :: "js_string \<Rightarrow> (js_string \<times> js_string \<times> js_string) option" where
  "lazy_alt [] = None"
| "lazy_alt (c # cs) =
     (case (if starts_with (c # cs) (lit '']('') then lazy_to_rparen (drop 2 (c # cs)) else None) of
        Some (url, rest) \<Rightarrow> Some ([], url, rest)
      | None \<Rightarrow>
          if is_line_terminator c then None
          else (case lazy_alt cs of
                  None \<Rightarrow> None
                | Some (alt, url, rest) \<Rightarrow> Some (c # alt, url, rest)))"

definition image_at :: "js_string \<Rightarrow> (js_string \<times> js_string \<times> js_string) option" where
  "image_at s = (if starts_with s (lit ''!['') then lazy_alt (drop 2 s) else None)"

definition ends_with :: "js_string \<Rightarrow> js_string \<Rightarrow> bool" where
  "ends_with s p = starts_with (rev s) (rev p)"

text \<open>\<open>s.substring(a, b)\<close>: both indices are clamped to the length and swapped if \<open>a > b\<close>.\<close>

definition substring :: "js_string \<Rightarrow> nat \<Rightarrow> nat \<Rightarrow> js_string" where
  "substring s a b =
     (let a' = min a (length s); b' = min b (length s)
      in take (max a' b' - min a' b') (drop (min a' b') s))"

definition image_text :: "js_string \<Rightarrow> js_string \<Rightarrow> js_string" where
  "image_text altText url =
     (if starts_with altText (lit '':'') \<and> ends_with altText (lit '':'')
      then substring altText 1 (length altText - 1)
      else lit ''!['' @ altText @ lit '']('' @ url @ lit '')'')"

lemma lazy_to_rparen_shorter: "lazy_to_rparen s = Some (url, rest) \<Longrightarrow> length rest < length s"
  by (induction s arbitrary: url rest) (auto split: if_splits option.splits)

lemma lazy_alt_shorter: "lazy_alt s = Some (alt, url, rest) \<Longrightarrow> length rest < length s"
proof (induction s arbitrary: alt url rest)
  case Nil
  then show ?case by simp
next
  case (Cons c cs)
  show ?case
  proof (cases "if starts_with (c # cs) (lit '']('') then lazy_to_rparen (drop 2 (c # cs)) else None")
    case None
    with Cons.prems obtain alt' where "lazy_alt cs = Some (alt', url, rest)"
      by (auto split: if_splits option.splits)
    from Cons.IH [OF this] show ?thesis by simp
  next
    case (Some r)
    with Cons.prems have "lazy_to_rparen (drop 2 (c # cs)) = Some (url, rest)"
      by (auto split: if_splits)
    from lazy_to_rparen_shorter [OF this] show ?thesis
      by (simp add: less_le_trans)
  qed
qed

lemma image_at_shorter: "image_at s = Some (alt, url, rest) \<Longrightarrow> length rest < length s"
  by (auto simp: image_at_def split: if_splits dest!: lazy_alt_shorter)

function replace_images :: "js_string \<Rightarrow> js_string" where
  "replace_images s =
     (case image_at s of
        Some (altText, url, rest) \<Rightarrow> image_text altText url @ replace_images rest
      | None \<Rightarrow>
          (case s of
             [] \<Rightarrow> []
           | c # cs \<Rightarrow> c # replace_images cs))"
  by pat_completeness auto
termination
  by (relation "measure length") (auto dest: image_at_shorter)

text \<open>
  The translation of HTML to Markdown is the library's (\<open>NodeHtmlMarkdown.translate\<close>);
  it is the parameter \<open>translate\<close>.
\<close>

definition convertHtmlToMarkdown :: "(js_string \<Rightarrow> js_string) \<Rightarrow> js_string \<Rightarrow> js_string" where
  "convertHtmlToMarkdown translate htmlString = replace_images (translate htmlString)"

section \<open>The instruction of a topic\<close>

text \<open>
  The override of topic \<open>t\<close> is the file \<open>system_message_t.txt\<close> beside the plugin,
  written from a string and read as \<open>utf8\<close>. A string goes to the file in UTF-8, in which
  a surrogate pair is one character and an unpaired surrogate is written as U+FFFD;
  \<open>utf8_text\<close> is the string that comes back. \<open>well_formed\<close> strings have no unpaired
  surrogate.
\<close>

definition is_high_surrogate :: "code_unit \<Rightarrow> bool" where
  "is_high_surrogate c = (0xD800 \<le> c \<and> c \<le> 0xDBFF)"

definition is_low_surrogate :: "code_unit \<Rightarrow> bool" where
  "is_low_surrogate c = (0xDC00 \<le> c \<and> c \<le> 0xDFFF)"

fun utf8_text :: "js_string \<Rightarrow> js_string" where
  "utf8_text [] = []"
| "utf8_text [c] = (if is_high_surrogate c \<or> is_low_surrogate c then [0xFFFD] else [c])"
| "utf8_text (c # d # cs) =
     (if is_high_surrogate c \<and> is_low_surrogate d then c # d # utf8_text cs
      else if is_high_surrogate c \<or> is_low_surrogate c then 0xFFFD # utf8_text (d # cs)
      else c # utf8_text (d # cs))"

fun well_formed :: "js_string \<Rightarrow> bool" where
  "well_formed [] = True"
| "well_formed [c] = (\<not> is_high_surrogate c \<and> \<not> is_low_surrogate c)"
| "well_formed (c # d # cs) =
     (if is_high_surrogate c \<and> is_low_surrogate d then well_formed cs
      else \<not> is_high_surrogate c \<and> \<not> is_low_surrogate c \<and> well_formed (d # cs))"

text \<open>
  The model keeps the files by topic identifier: the text of each file, if there is one,
  and whether the process may read and may write at that path. Reading a file that is
  absent or may not be read throws, and so does writing where the process may not write.
  Writing leaves the permissions as they are.
\<close>

datatype node = Absent | File js_string

record 'tid fs =
  files :: "'tid \<Rightarrow> node"
  can_read :: "'tid \<Rightarrow> bool"
  can_write :: "'tid \<Rightarrow> bool"

definition put_file :: "'tid fs \<Rightarrow> 'tid \<Rightarrow> js_string \<Rightarrow> 'tid fs" where
  "put_file fs path s = fs\<lparr>files := (files fs)(path := File s)\<rparr>"

definition readFileSync :: "'tid fs \<Rightarrow> 'tid \<Rightarrow> error + js_string" where
  "readFileSync fs path =
     (case files fs path of
        Absent \<Rightarrow> Inl ENOENT
      | File s \<Rightarrow> if can_read fs path then Inr s else Inl EACCES)"

definition writeFileSync :: "'tid fs \<Rightarrow> 'tid \<Rightarrow> js_string \<Rightarrow> error + 'tid fs" where
  "writeFileSync fs path s =
     (if can_write fs path then Inr (put_file fs path (utf8_text s)) else Inl EACCES)"

definition get_system_message :: "js_string \<Rightarrow> 'tid fs \<Rightarrow> 'tid \<Rightarrow> js_string" where
  "get_system_message default_system_message fs topic_id =
     (case readFileSync fs topic_id of
        Inr s \<Rightarrow> s
      | Inl err \<Rightarrow> default_system_message)"

definition set_system_message :: "'tid fs \<Rightarrow> 'tid \<Rightarrow> js_string \<Rightarrow> error + 'tid fs" where
  "set_system_message fs topic_id msg = writeFileSync fs topic_id msg"

definition system_message_complement :: js_string where
  "system_message_complement =
     NL # lit ''You'' @ 0x27 # lit ''re talking in a forum, and your answers should follow the markdown format, without any links or images.''
     @ NL # lit ''All usernames are prefixed with an '' @ 0x27 # AT # 0x27 # lit '' character.''
     @ NL # NL # lit ''Your username in the forum is '' @ 0x27 # lit ''clippy'' @ 0x27 # lit ''.''"

definition format_system_message :: "js_string \<Rightarrow> 'tid fs \<Rightarrow> 'tid \<Rightarrow> message" where
  "format_system_message default_system_message fs topic_id =
     (let system_message = get_system_message default_system_message fs topic_id
      in \<lparr>role = System, name = None, content = system_message @ NL # system_message_complement\<rparr>)"

section \<open>Collecting the context\<close>

text \<open>
  A line is a command if one of the pieces between its spaces starts with \<open>#\<close>. The lines
  of a post go to \<open>commands\<close> or to \<open>text\<close>, in their order.
\<close>

definition is_command :: "js_string \<Rightarrow> bool" where
  "is_command l = list_ex (\<lambda>word. starts_with word [HASH]) (split_on SPACE l)"

definition classify :: "js_string list \<Rightarrow> js_string list \<times> js_string list" where
  "classify lines =
     foldl (\<lambda>(commands, text) l.
              if is_command l then (commands @ [l], text) else (commands, text @ [l]))
       ([], []) lines"

text \<open>
  \<^verbatim>\<open>c.match(/#system_message ?\((.*)\)/)\<close>: \<open>greedy_to_rparen\<close> matches \<open>(.*)\)\<close> at the head of
  its argument, longest group first; \<open>system_message_here\<close> matches the expression at the
  head of its argument and \<open>system_message_match\<close> at the leftmost position where it
  matches. They return the group.
\<close>

fun greedy_to_rparen :: "js_string \<Rightarrow> js_string option" where
  "greedy_to_rparen [] = None"
| "greedy_to_rparen (c # cs) =
     (case (if is_line_terminator c then None else greedy_to_rparen cs) of
        Some g \<Rightarrow> Some (c # g)
      | None \<Rightarrow> if c = 0x29 then Some [] else None)"

definition system_message_here :: "js_string \<Rightarrow> js_string option" where
  "system_message_here s =
     (if starts_with s (lit ''#system_message'') then
        (let r = drop (length (lit ''#system_message'')) s;
             r = (if starts_with r [SPACE] then tl r else r)
         in if starts_with r (lit ''('') then greedy_to_rparen (tl r) else None)
      else None)"

fun system_message_match :: "js_string \<Rightarrow> js_string option" where
  "system_message_match [] = system_message_here []"
| "system_message_match (c # cs) =
     (case system_message_here (c # cs) of
        Some g \<Rightarrow> Some g
      | None \<Rightarrow> system_message_match cs)"

text \<open>
  The commands of one post, in order. A failed write ends the run with its error; the
  files written before it stay written.
\<close>

fun run_commands ::
  "'tid \<Rightarrow> js_string list \<Rightarrow> message list \<Rightarrow> 'tid fs \<Rightarrow> (error + message list) \<times> 'tid fs" where
  "run_commands topic_id [] messages fs = (Inr messages, fs)"
| "run_commands topic_id (c # cs) messages fs =
     (let messages = (if includes_str c (lit ''#clearcontext'') then [] else messages)
      in case system_message_match c of
           None \<Rightarrow> run_commands topic_id cs messages fs
         | Some m1 \<Rightarrow>
             (case set_system_message fs topic_id m1 of
                Inl err \<Rightarrow> (Inl err, fs)
              | Inr fs' \<Rightarrow> run_commands topic_id cs messages fs'))"

text \<open>
  The name of an author: the characters outside \<open>[a-zA-Z0-9_-]\<close> removed, at most 64 kept,
  \<open>user\<close> if none is left. \<open>toLowerCase\<close> is applied to such names only, where it changes
  the letters \<open>A\<close> to \<open>Z\<close>.
\<close>

definition toLowerCase :: "js_string \<Rightarrow> js_string" where
  "toLowerCase s = map (\<lambda>c. if 0x41 \<le> c \<and> c \<le> 0x5A then c + 0x20 else c) s"

definition sanitize_name :: "js_string \<Rightarrow> js_string" where
  "sanitize_name author =
     (let sanitizedName = take 64 (filter is_name_char author)
      in if length sanitizedName = 0 then lit ''user'' else sanitizedName)"

definition new_message :: "js_string \<Rightarrow> js_string \<Rightarrow> message" where
  "new_message author text =
     (let sanitizedName = sanitize_name author;
          role = (if trim (toLowerCase sanitizedName) = lit ''clippy'' then Assistant else User)
      in \<lparr>role = role, name = Some sanitizedName, content = text\<rparr>)"

record context_post =
  post_content :: js_string
  post_author :: js_string

definition post_lines :: "(js_string \<Rightarrow> js_string) \<Rightarrow> context_post \<Rightarrow> js_string list \<times> js_string" where
  "post_lines translate p =
     (let markdown = convertHtmlToMarkdown translate (post_content p);
          lines = split_on NL markdown;
          (commands, text) = classify lines
      in (commands, join_with NL text))"

fun collect ::
  "(js_string \<Rightarrow> js_string) \<Rightarrow> 'tid \<Rightarrow> context_post list \<Rightarrow> message list \<Rightarrow> 'tid fs
     \<Rightarrow> (error + message list) \<times> 'tid fs" where
  "collect translate topic_id [] messages fs = (Inr messages, fs)"
| "collect translate topic_id (p # ps) messages fs =
     (let (commands, text) = post_lines translate p;
          messages = (if 0 < length (trim text)
                      then messages @ [new_message (post_author p) text]
                      else messages)
      in case run_commands topic_id commands messages fs of
           (Inl err, fs') \<Rightarrow> (Inl err, fs')
         | (Inr messages', fs') \<Rightarrow> collect translate topic_id ps messages' fs')"

section \<open>The handler\<close>

text \<open>
  What the forum gives to one run: the user of the notification, the content of the
  triggering post, and the latest posts of the topic with the user names of their authors
  (\<open>contextPosts\<close>), each of them or a failure.
\<close>

record ('tid, 'pid) notification =
  getUser :: "error + js_string"
  topicId :: 'tid
  postId :: 'pid

record ('tid, 'pid) forum =
  Post_get :: "'pid \<Rightarrow> error + js_string"
  latest_posts :: "'tid \<Rightarrow> error + context_post list"

text \<open>
  How a run ends: \<open>Failed\<close> is the \<open>catch\<close> branch (the error is emitted on the forum and
  the promise rejected), \<open>Silent\<close> the return without a reply, \<open>Reply\<close> the call of
  \<open>forum.Post.reply\<close> with that text. \<open>requests\<close> are the message lists sent to the
  completion service and \<open>store\<close> the files when the run ends.
\<close>

datatype outcome = Failed error | Silent | Reply js_string

record 'tid run =
  outcome :: outcome
  requests :: "message list list"
  store :: "'tid fs"

definition handler ::
  "(js_string \<Rightarrow> js_string) \<Rightarrow> js_string \<Rightarrow> char_limit \<Rightarrow> ('tid, 'pid) forum \<Rightarrow> service
     \<Rightarrow> 'tid fs \<Rightarrow> ('tid, 'pid) notification \<Rightarrow> 'tid run" where
  "handler translate default_system_message character_limit forum service fs notification =
     (case getUser notification of
        Inl err \<Rightarrow> \<lparr>outcome = Failed err, requests = [], store = fs\<rparr>
      | Inr user \<Rightarrow>
     (let topic_id = topicId notification
      in case Post_get forum (postId notification) of
        Inl err \<Rightarrow> \<lparr>outcome = Failed err, requests = [], store = fs\<rparr>
      | Inr thepost \<Rightarrow>
     (if includes_str thepost (lit ''#show_system_message'') then
        (let system_message = get_system_message default_system_message fs topic_id
         in \<lparr>outcome = Reply (HASH # system_message), requests = [], store = fs\<rparr>)
      else
     (case latest_posts forum topic_id of
        Inl err \<Rightarrow> \<lparr>outcome = Failed err, requests = [], store = fs\<rparr>
      | Inr contextPosts \<Rightarrow>
     (case collect translate topic_id contextPosts [] fs of
        (Inl err, fs') \<Rightarrow> \<lparr>outcome = Failed err, requests = [], store = fs'\<rparr>
      | (Inr messages, fs') \<Rightarrow>
     (let messages = limit_chars messages character_limit;
          messages = format_system_message default_system_message fs' topic_id # messages
      in case generateContent service messages of
        Inl err \<Rightarrow> \<lparr>outcome = Failed err, requests = [messages], store = fs'\<rparr>
      | Inr response \<Rightarrow>
     (case response of
        None \<Rightarrow> \<lparr>outcome = Silent, requests = [messages], store = fs'\<rparr>
      | Some text \<Rightarrow>
          if text = [] then \<lparr>outcome = Silent, requests = [messages], store = fs'\<rparr>
          else \<lparr>outcome = Reply (removeMentions text), requests = [messages],
                store = fs'\<rparr>)))))))"

section \<open>The directive line in the specification's words\<close>

text \<open>
  The specification classifies a line by its whitespace-delimited tokens. \<open>split_space\<close>
  cuts a line at every white-space character, in the way \<open>split_on\<close> cuts it at one
  separator, and \<open>spec_is_directive\<close> is the specification's rule on these tokens.
\<close>

fun split_space :: "js_string \<Rightarrow> js_string list" where
  "split_space [] = [[]]"
| "split_space (c # cs) =
     (let r = split_space cs in if is_js_space c then [] # r else (c # hd r) # tl r)"

definition spec_is_directive :: "js_string \<Rightarrow> bool" where
  "spec_is_directive l = list_ex (\<lambda>token. starts_with token [HASH]) (split_space l)"

text \<open>
  A \<open>#\<close> at the start of a line or right after a space (\<open>hash_first\<close>), and a \<open>#\<close> right
  after a space (\<open>hash_later\<close>).
\<close>

definition hash_first :: "js_string \<Rightarrow> bool" where
  "hash_first l = (\<exists>pre post. l = pre @ HASH # post \<and> (pre = [] \<or> last pre = SPACE))"

definition hash_later :: "js_string \<Rightarrow> bool" where
  "hash_later l = (\<exists>pre post. l = pre @ HASH # post \<and> pre \<noteq> [] \<and> last pre = SPACE)"

section \<open>Sample inputs\<close>

text \<open>
  A directory without override files in which the process may read and write, a
  notification, a post with a paragraph of prose and a paragraph \<open>#clearcontext\<close>, and a
  translation that turns the two paragraphs of that post into lines separated by an empty
  line and leaves text without markup as it is.
\<close>

definition empty_fs :: "'tid fs" where
  "empty_fs = \<lparr>files = (\<lambda>t. Absent), can_read = (\<lambda>t. True), can_write = (\<lambda>t. True)\<rparr>"

definition sample_notification :: "(nat, nat) notification" where
  "sample_notification = \<lparr>getUser = Inr (lit ''bob''), topicId = 7, postId = 42\<rparr>"

definition sample_translate :: "js_string \<Rightarrow> js_string" where
  "sample_translate html =
     (if html = lit ''<p>hello</p><p>#clearcontext</p>''
      then lit ''hello'' @ [NL, NL] @ lit ''#clearcontext''
      else html)"

definition clear_post :: context_post where
  "clear_post =
     \<lparr>post_content = lit ''<p>hello</p><p>#clearcontext</p>'', post_author = lit ''bob''\<rparr>"

section \<open>Properties of removeMentions\<close>

declare replace_mentions.simps [simp del]
declare limit_chars.simps [simp del]

lemma mention_name_append: "mention_name s = Some (g2, rest) \<Longrightarrow> g2 @ rest = s"
  by (auto simp: mention_name_def Let_def split: list.splits if_splits)

lemma mention_at_append: "mention_at b s = Some (g1, g2, rest) \<Longrightarrow> g1 @ g2 @ rest = s"
  by (auto simp: mention_at_def split: option.splits list.splits if_splits
      dest: mention_name_append)

lemma replace_mentions_same: "replace_mentions b s = s"
proof (induction b s rule: replace_mentions.induct)
  case (1 at_start s)
  show ?case
  proof (cases "mention_at at_start s")
    case None
    show ?thesis
    proof (cases s)
      case Nil
      with None show ?thesis
        by (subst replace_mentions.simps) simp
    next
      case (Cons c cs)
      with None "1.IH"(1) [OF None Cons] show ?thesis
        by (subst replace_mentions.simps) simp
    qed
  next
    case (Some m)
    obtain g1 g2 rest where m: "m = (g1, g2, rest)"
      by (cases m) auto
    from "1.IH"(2) [OF Some [unfolded m] refl refl] mention_at_append [OF Some [unfolded m]]
    show ?thesis
      using Some m by (subst replace_mentions.simps) simp
  qed
qed

text \<open>
  Claim C10: \<open>removeMentions\<close> is the identity. Each match is replaced by its two groups,
  which together are the matched text, so every string comes back character for
  character, at-signs and names included.
\<close>

theorem removeMentions_identity: "removeMentions s = s"
  by (simp add: removeMentions_def replace_mentions_same)

text \<open>
  Claim C2: the reply sanitizer is to defuse each at-sign followed by a name. On the reply
  \<open>hi @bob\<close> the expression matches the space and \<open>@bob\<close>, and the reply comes back as
  it went in: the mention is still there, nothing is inserted.
\<close>

theorem removeMentions_keeps_mention:
  "removeMentions (lit ''hi @bob'') = lit ''hi @bob''
   \<and> mention_at False (lit '' @bob'') = Some (lit '' '', lit ''@bob'', [])"
  by (simp add: removeMentions_def replace_mentions_same mention_at_def mention_name_def
      lit_def is_word_char_def is_name_char_def)

section \<open>Properties of the context budget\<close>

lemma limit_chars_shift:
  "exceeds (count_chars messages) limit \<Longrightarrow> 5 < length messages
   \<Longrightarrow> limit_chars messages limit = limit_chars (tl messages) limit"
  by (subst limit_chars.simps) simp

lemma limit_chars_keep:
  "\<not> (exceeds (count_chars messages) limit \<and> 5 < length messages)
   \<Longrightarrow> limit_chars messages limit = messages"
  by (subst limit_chars.simps) auto

text \<open>
  Claim C9: the budget is idempotent. A list that \<open>limit_chars\<close> returns is one on which
  the condition of its loop fails, so a second application returns it unchanged.
\<close>

theorem limit_chars_idempotent:
  "limit_chars (limit_chars messages limit) limit = limit_chars messages limit"
proof (induction messages limit rule: limit_chars.induct)
  case (1 messages limit)
  show ?case
  proof (cases "exceeds (count_chars messages) limit \<and> 5 < length messages")
    case True
    then have "limit_chars messages limit = limit_chars (tl messages) limit"
      by (simp add: limit_chars_shift)
    with "1.IH" [OF True] show ?thesis by simp
  next
    case False
    then have "limit_chars messages limit = messages"
      by (rule limit_chars_keep)
    then show ?thesis by simp
  qed
qed

lemma limit_chars_length: "min 5 (length messages) \<le> length (limit_chars messages limit)"
proof (induction messages limit rule: limit_chars.induct)
  case (1 messages limit)
  show ?case
  proof (cases "exceeds (count_chars messages) limit \<and> 5 < length messages")
    case True
    then have "limit_chars messages limit = limit_chars (tl messages) limit"
      by (simp add: limit_chars_shift)
    with "1.IH" [OF True] True show ?thesis by (auto simp: min_def split: if_splits)
  next
    case False
    then have "limit_chars messages limit = messages"
      by (rule limit_chars_keep)
    then show ?thesis by simp
  qed
qed

lemma count_chars_sum: "count_chars messages = sum_list (map (\<lambda>m. length (content m)) messages)"
proof -
  have "foldl (\<lambda>t m. t + length (content m)) a messages
        = a + sum_list (map (\<lambda>m. length (content m)) messages)" for a
    by (induction messages arbitrary: a) simp_all
  then show ?thesis by (simp add: count_chars_def)
qed

lemma count_chars_uniform:
  "\<forall>m\<in>set messages. length (content m) = n \<Longrightarrow> count_chars messages = length messages * n"
  unfolding count_chars_sum by (induction messages) simp_all

lemma limit_chars_six:
  assumes len: "length six = 6" and each: "\<forall>m\<in>set six. length (content m) = 10000"
  shows "limit_chars six (Some 25000) = tl six"
proof -
  have c6: "count_chars six = 60000"
    using count_chars_uniform [OF each] len by simp
  have each': "\<forall>m\<in>set (tl six). length (content m) = 10000"
    using each len by (cases six) auto
  have "limit_chars six (Some 25000) = limit_chars (tl six) (Some 25000)"
    using len c6 by (intro limit_chars_shift) (simp_all add: exceeds_def)
  also have "\<dots> = tl six"
    using len by (intro limit_chars_keep) simp
  finally show ?thesis .
qed

text \<open>
  Claim C3: \<open>limit_chars\<close> never leaves fewer than 5 messages of a list that has 5 or
  more, and leaves a shorter list as it is, whatever the number of characters. Of 6
  messages of 10000 characters each, with the limit 25000, the 5 newest remain, 50000
  characters in all.
\<close>

theorem limit_chars_floor:
  "min 5 (length messages) \<le> length (limit_chars messages limit)
   \<and> (length six = 6 \<and> (\<forall>m\<in>set six. length (content m) = 10000)
      \<longrightarrow> limit_chars six (Some 25000) = tl six
          \<and> length (limit_chars six (Some 25000)) = 5
          \<and> count_chars (limit_chars six (Some 25000)) = 50000)"
proof -
  have "limit_chars six (Some 25000) = tl six \<and> length (limit_chars six (Some 25000)) = 5
        \<and> count_chars (limit_chars six (Some 25000)) = 50000"
    if len: "length six = 6" and each: "\<forall>m\<in>set six. length (content m) = 10000"
  proof -
    have eq: "limit_chars six (Some 25000) = tl six"
      using len each by (rule limit_chars_six)
    have "\<forall>m\<in>set (tl six). length (content m) = 10000"
      using each len by (cases six) auto
    from count_chars_uniform [OF this] len eq show ?thesis by simp
  qed
  with limit_chars_length show ?thesis by blast
qed

theorem limit_chars_floor_witness:
  "length (replicate 6 \<lparr>role = User, name = Some (lit ''bob''), content = replicate 10000 0x61\<rparr>) = 6
   \<and> list_all (\<lambda>m. length (content m) = 10000)
        (replicate 6 \<lparr>role = User, name = Some (lit ''bob''), content = replicate 10000 0x61\<rparr>)
   \<and> limit_chars (replicate 6 \<lparr>role = User, name = Some (lit ''bob''), content = replicate 10000 0x61\<rparr>) (Some 25000)
       = replicate 5 \<lparr>role = User, name = Some (lit ''bob''), content = replicate 10000 0x61\<rparr>
   \<and> count_chars (limit_chars (replicate 6 \<lparr>role = User, name = Some (lit ''bob''), content = replicate 10000 0x61\<rparr>) (Some 25000)) = 50000"
  using limit_chars_floor [of "[]" None
      "replicate 6 \<lparr>role = User, name = Some (lit ''bob''), content = replicate 10000 0x61\<rparr>"]
  by (auto simp: list_all_iff)

section \<open>Properties of the string operations\<close>

lemma starts_with_iff: "starts_with s p \<longleftrightarrow> (\<exists>post. s = p @ post)"
  by (induction s p rule: starts_with.induct) auto

lemma includes_str_iff: "includes_str s p \<longleftrightarrow> (\<exists>pre post. s = pre @ p @ post)"
proof (induction s)
  case Nil
  then show ?case by (auto simp: starts_with_iff)
next
  case (Cons c cs)
  show ?case
  proof
    assume "includes_str (c # cs) p"
    then consider "starts_with (c # cs) p" | "includes_str cs p" by auto
    then show "\<exists>pre post. c # cs = pre @ p @ post"
    proof cases
      case 1
      then obtain post where "c # cs = [] @ p @ post" by (auto simp: starts_with_iff)
      then show ?thesis by blast
    next
      case 2
      with Cons.IH obtain pre post where "cs = pre @ p @ post" by blast
      then have "c # cs = (c # pre) @ p @ post" by simp
      then show ?thesis by blast
    qed
  next
    assume "\<exists>pre post. c # cs = pre @ p @ post"
    then obtain pre post where eq: "c # cs = pre @ p @ post" by blast
    show "includes_str (c # cs) p"
    proof (cases pre)
      case Nil
      with eq have "starts_with (c # cs) p" by (auto simp: starts_with_iff)
      then show ?thesis by simp
    next
      case (Cons d pre')
      with eq have "cs = pre' @ p @ post" by simp
      with Cons.IH have "includes_str cs p" by blast
      then show ?thesis by simp
    qed
  qed
qed

section \<open>Properties of the instruction store\<close>

lemma utf8_text_well_formed: "well_formed x \<Longrightarrow> utf8_text x = x"
  by (induction x rule: utf8_text.induct) (auto split: if_splits)

text \<open>
  Claim C6, as amended: for a topic whose override file is absent, \<open>get_system_message\<close>
  returns the default text, and so it does when the file may not be read: it returns a
  text in every case, never an error. After \<open>set_system_message\<close> has written \<open>x\<close> for a
  topic, \<open>get_system_message\<close> returns for it the text that comes back from the UTF-8
  file if the file may be read, and the default if not. The text that comes back is \<open>x\<close>
  itself when \<open>x\<close> has no unpaired surrogate.
\<close>

theorem system_message_get_set:
  "((files fs topic_id = Absent \<or> \<not> can_read fs topic_id)
      \<longrightarrow> get_system_message default_system_message fs topic_id = default_system_message)
   \<and> (set_system_message fs topic_id x = Inr fs'
      \<longrightarrow> get_system_message default_system_message fs' topic_id
          = (if can_read fs' topic_id then utf8_text x else default_system_message))
   \<and> (set_system_message fs topic_id x = Inr fs' \<and> can_read fs' topic_id \<and> well_formed x
      \<longrightarrow> get_system_message default_system_message fs' topic_id = x)"
proof (intro conjI impI)
  assume "files fs topic_id = Absent \<or> \<not> can_read fs topic_id"
  then show "get_system_message default_system_message fs topic_id = default_system_message"
    by (auto simp: get_system_message_def readFileSync_def split: node.splits)
next
  assume "set_system_message fs topic_id x = Inr fs'"
  then have "fs' = put_file fs topic_id (utf8_text x)"
    by (simp add: set_system_message_def writeFileSync_def split: if_splits)
  then show "get_system_message default_system_message fs' topic_id
      = (if can_read fs' topic_id then utf8_text x else default_system_message)"
    by (simp add: get_system_message_def readFileSync_def put_file_def)
next
  assume a: "set_system_message fs topic_id x = Inr fs' \<and> can_read fs' topic_id \<and> well_formed x"
  then have "fs' = put_file fs topic_id (utf8_text x)"
    by (simp add: set_system_message_def writeFileSync_def split: if_splits)
  with a show "get_system_message default_system_message fs' topic_id = x"
    by (simp add: get_system_message_def readFileSync_def put_file_def utf8_text_well_formed)
qed

theorem system_message_get_set_witness:
  "(files empty_fs (7::nat) = Absent \<or> \<not> can_read empty_fs (7::nat))
   \<and> get_system_message (lit ''Be kind.'') empty_fs (7::nat) = lit ''Be kind.''
   \<and> set_system_message empty_fs (7::nat) (lit ''Be terse.'')
       = Inr (put_file empty_fs 7 (lit ''Be terse.''))
   \<and> can_read (put_file empty_fs (7::nat) (lit ''Be terse.'')) 7
   \<and> well_formed (lit ''Be terse.'')
   \<and> get_system_message (lit ''Be kind.'') (put_file empty_fs (7::nat) (lit ''Be terse.'')) 7
       = lit ''Be terse.''"
proof -
  have wf: "well_formed (lit ''Be terse.'')"
    by (simp add: lit_def is_high_surrogate_def is_low_surrogate_def)
  have a: "files empty_fs (7::nat) = Absent \<or> \<not> can_read empty_fs (7::nat)"
    by (simp add: empty_fs_def)
  have w: "set_system_message empty_fs (7::nat) (lit ''Be terse.'')
       = Inr (put_file empty_fs 7 (lit ''Be terse.''))"
    by (simp add: set_system_message_def writeFileSync_def empty_fs_def utf8_text_well_formed [OF wf])
  have r: "can_read (put_file empty_fs (7::nat) (lit ''Be terse.'')) 7"
    by (simp add: put_file_def empty_fs_def)
  note t = system_message_get_set [of empty_fs "7::nat" "lit ''Be kind.''" "lit ''Be terse.''"
      "put_file empty_fs 7 (lit ''Be terse.'')"]
  from t a have g1: "get_system_message (lit ''Be kind.'') empty_fs (7::nat) = lit ''Be kind.''"
    by blast
  from t w r wf have g2: "get_system_message (lit ''Be kind.'') (put_file empty_fs (7::nat) (lit ''Be terse.'')) 7
       = lit ''Be terse.''"
    by blast
  from a g1 w r wf g2 show ?thesis by blast
qed

text \<open>
  Claim C6, as stated, fails: the text U+D800 \<open>x\<close>, an unpaired surrogate and a letter, is
  written without error for a topic that has no file, in a directory where the process
  may read and write, and what \<open>get_system_message\<close> then returns is U+FFFD \<open>x\<close>, not the
  text that was set.
\<close>

theorem system_message_get_set_counterexample:
  "set_system_message empty_fs (7::nat) [0xD800, 0x78] = Inr (put_file empty_fs 7 [0xFFFD, 0x78])
   \<and> get_system_message (lit ''Be kind.'') (put_file empty_fs (7::nat) [0xFFFD, 0x78]) 7
       = [0xFFFD, 0x78]
   \<and> get_system_message (lit ''Be kind.'') (put_file empty_fs (7::nat) [0xFFFD, 0x78]) 7
       \<noteq> [0xD800, 0x78]"
  by (simp add: set_system_message_def writeFileSync_def get_system_message_def readFileSync_def
      empty_fs_def put_file_def is_high_surrogate_def is_low_surrogate_def)

section \<open>Properties of the handler\<close>

text \<open>
  Claim C7: when the content of the triggering post contains \<open>#show_system_message\<close>, in
  particular when it is exactly that, the handler replies with \<open>#\<close> followed by the
  instruction stored for the topic, and sends nothing to the completion service.
\<close>

theorem handler_show_system_message:
  assumes "getUser notification = Inr user"
    and "Post_get forum (postId notification) = Inr (pre @ lit ''#show_system_message'' @ post)"
  shows "handler translate default_system_message character_limit forum service fs notification
         = \<lparr>outcome = Reply (HASH # get_system_message default_system_message fs (topicId notification)),
            requests = [], store = fs\<rparr>"
proof -
  have "includes_str (pre @ lit ''#show_system_message'' @ post) (lit ''#show_system_message'')"
    unfolding includes_str_iff by blast
  with assms show ?thesis
    by (simp add: handler_def)
qed

theorem handler_show_system_message_witness:
  "getUser sample_notification = Inr (lit ''bob'')
   \<and> handler (\<lambda>html. html) (lit ''Be kind.'') (Some 25000)
        \<lparr>Post_get = (\<lambda>p. Inr (lit ''#show_system_message'')), latest_posts = (\<lambda>t. Inr [])\<rparr>
        (\<lambda>ms. Inl ServiceError) (put_file empty_fs 7 (lit ''Be terse.'')) sample_notification
      = \<lparr>outcome = Reply (lit ''#Be terse.''), requests = [],
         store = put_file empty_fs 7 (lit ''Be terse.'')\<rparr>"
  using handler_show_system_message [of sample_notification "lit ''bob''"
      "\<lparr>Post_get = (\<lambda>p. Inr (lit ''#show_system_message'')), latest_posts = (\<lambda>t. Inr [])\<rparr>"
      "[]" "[]" "\<lambda>html. html" "lit ''Be kind.''" "Some 25000" "\<lambda>ms. Inl ServiceError"
      "put_file empty_fs 7 (lit ''Be terse.'')"]
  by (simp add: sample_notification_def get_system_message_def readFileSync_def lit_def
      put_file_def empty_fs_def)

text \<open>
  Claim C8: in a run that sends a request to the completion service and gets an empty or
  absent content back, the handler ends without a reply and without an error.
\<close>

theorem handler_empty_content:
  assumes "requests (handler translate default_system_message character_limit forum service fs
              notification) = [messages]"
    and "service messages = Inr None \<or> service messages = Inr (Some [])"
  shows "outcome (handler translate default_system_message character_limit forum service fs
              notification) = Silent"
  using assms
  by (auto simp: handler_def Let_def generateContent_def
      split: sum.splits if_splits prod.splits option.splits)

theorem handler_empty_content_witness:
  "requests (handler (\<lambda>html. html) (lit ''Be kind.'') (Some 25000)
        \<lparr>Post_get = (\<lambda>p. Inr (lit ''@clippy hello'')),
         latest_posts = (\<lambda>t. Inr [\<lparr>post_content = lit ''@clippy hello'', post_author = lit ''bob''\<rparr>])\<rparr>
        (\<lambda>ms. Inr (Some [])) empty_fs sample_notification)
     = [[format_system_message (lit ''Be kind.'') empty_fs (7::nat),
         \<lparr>role = User, name = Some (lit ''bob''), content = lit ''@clippy hello''\<rparr>]]
   \<and> ((\<lambda>ms. Inr (Some [])) [format_system_message (lit ''Be kind.'') empty_fs (7::nat),
         \<lparr>role = User, name = Some (lit ''bob''), content = lit ''@clippy hello''\<rparr>]
        = (Inr None :: error + js_string option)
      \<or> (\<lambda>ms. Inr (Some [])) [format_system_message (lit ''Be kind.'') empty_fs (7::nat),
         \<lparr>role = User, name = Some (lit ''bob''), content = lit ''@clippy hello''\<rparr>]
        = (Inr (Some []) :: error + js_string option))
   \<and> outcome (handler (\<lambda>html. html) (lit ''Be kind.'') (Some 25000)
        \<lparr>Post_get = (\<lambda>p. Inr (lit ''@clippy hello'')),
         latest_posts = (\<lambda>t. Inr [\<lparr>post_content = lit ''@clippy hello'', post_author = lit ''bob''\<rparr>])\<rparr>
        (\<lambda>ms. Inr (Some [])) empty_fs sample_notification) = Silent"
proof -
  have run: "requests (handler (\<lambda>html. html) (lit ''Be kind.'') (Some 25000)
        \<lparr>Post_get = (\<lambda>p. Inr (lit ''@clippy hello'')),
         latest_posts = (\<lambda>t. Inr [\<lparr>post_content = lit ''@clippy hello'', post_author = lit ''bob''\<rparr>])\<rparr>
        (\<lambda>ms. Inr (Some [])) empty_fs sample_notification)
     = [[format_system_message (lit ''Be kind.'') empty_fs (7::nat),
         \<lparr>role = User, name = Some (lit ''bob''), content = lit ''@clippy hello''\<rparr>]]"
    by (simp add: handler_def sample_notification_def lit_def post_lines_def
        convertHtmlToMarkdown_def image_at_def classify_def is_command_def trim_def
        is_js_space_def new_message_def sanitize_name_def is_name_char_def toLowerCase_def
        limit_chars_keep generateContent_def)
  from handler_empty_content [OF run] run show ?thesis by simp
qed

section \<open>Properties of the collection of the context\<close>

lemma run_commands_messages:
  "run_commands topic_id commands messages fs = (Inr messages', fs')
   \<Longrightarrow> messages' = messages \<or> messages' = []"
proof (induction commands arbitrary: messages fs)
  case Nil
  then show ?case by simp
next
  case (Cons c cs)
  let ?ms = "if includes_str c (lit ''#clearcontext'') then [] else messages"
  from Cons.prems obtain fs1 where "run_commands topic_id cs ?ms fs1 = (Inr messages', fs')"
    by (auto simp: Let_def split: option.splits sum.splits)
  from Cons.IH [OF this] show ?case
    by (auto split: if_splits)
qed

lemma run_commands_clear:
  "list_ex (\<lambda>c. includes_str c (lit ''#clearcontext'')) commands
   \<Longrightarrow> run_commands topic_id commands messages fs = (Inr messages', fs')
   \<Longrightarrow> messages' = []"
proof (induction commands arbitrary: messages fs)
  case Nil
  then show ?case by simp
next
  case (Cons c cs)
  let ?ms = "if includes_str c (lit ''#clearcontext'') then [] else messages"
  from Cons.prems(2) obtain fs1 where run: "run_commands topic_id cs ?ms fs1 = (Inr messages', fs')"
    by (auto simp: Let_def split: option.splits sum.splits)
  show ?case
  proof (cases "includes_str c (lit ''#clearcontext'')")
    case True
    with run run_commands_messages [OF run] show ?thesis by auto
  next
    case False
    with Cons.prems(1) have "list_ex (\<lambda>c. includes_str c (lit ''#clearcontext'')) cs" by simp
    from Cons.IH [OF this run] show ?thesis .
  qed
qed

lemma collect_append:
  "collect translate topic_id (ps @ qs) messages fs =
     (case collect translate topic_id ps messages fs of
        (Inl err, fs') \<Rightarrow> (Inl err, fs')
      | (Inr messages', fs') \<Rightarrow> collect translate topic_id qs messages' fs')"
proof (induction ps arbitrary: messages fs)
  case Nil
  then show ?case by simp
next
  case (Cons p ps)
  show ?case
    by (simp add: Cons.IH Let_def split: prod.splits sum.splits)
qed

lemma collect_clear_post:
  assumes clear: "list_ex (\<lambda>c. includes_str c (lit ''#clearcontext'')) (fst (post_lines translate p))"
    and run: "collect translate topic_id [p] messages fs = (Inr messages', fs')"
  shows "messages' = []"
proof -
  obtain commands prose where pl: "post_lines translate p = (commands, prose)"
    by (cases "post_lines translate p") auto
  let ?ms = "if 0 < length (trim prose) then messages @ [new_message (post_author p) prose] else messages"
  from run pl have "run_commands topic_id commands ?ms fs = (Inr messages', fs')"
    by (auto simp: Let_def split: prod.splits sum.splits)
  with clear pl show ?thesis
    by (auto dest: run_commands_clear)
qed

text \<open>
  Claim C1, as amended: a post with a line that contains \<open>#clearcontext\<close> empties the
  accumulated list, the message of that post included. Once the posts up to and including
  it are processed, no message is left, and the final sequence is what the later posts
  contribute to an empty list.
\<close>

theorem clearcontext_empties:
  assumes "list_ex (\<lambda>c. includes_str c (lit ''#clearcontext'')) (fst (post_lines translate p))"
    and "collect translate topic_id (ps @ [p]) messages fs = (Inr messages', fs')"
  shows "messages' = []
         \<and> collect translate topic_id (ps @ p # qs) messages fs
           = collect translate topic_id qs [] fs'"
proof -
  from assms(2) obtain ms1 fs1 where
    before: "collect translate topic_id ps messages fs = (Inr ms1, fs1)" and
    at: "collect translate topic_id [p] ms1 fs1 = (Inr messages', fs')"
    unfolding collect_append [of translate topic_id ps "[p]"]
    by (auto split: prod.splits sum.splits)
  from collect_clear_post [OF assms(1) at] have empty: "messages' = []" .
  have "collect translate topic_id (ps @ [p] @ qs) messages fs
        = collect translate topic_id ([p] @ qs) ms1 fs1"
    unfolding collect_append [of translate topic_id ps "[p] @ qs"] using before by simp
  also have "\<dots> = collect translate topic_id qs messages' fs'"
    unfolding collect_append [of translate topic_id "[p]" qs] using at by simp
  finally show ?thesis using empty by simp
qed

text \<open>
  Claim C1, as stated, fails: the post \<open>clear_post\<close> has the prose \<open>hello\<close> and the line
  \<open>#clearcontext\<close>; its message is appended and then removed by its own directive, and the
  sequence collected from this post alone is empty.
\<close>

theorem clearcontext_counterexample:
  "snd (post_lines sample_translate clear_post) = lit ''hello'' @ [NL]
   \<and> 0 < length (trim (snd (post_lines sample_translate clear_post)))
   \<and> fst (collect sample_translate (7::nat) [clear_post] [] empty_fs) = Inr []"
  by (simp add: sample_translate_def clear_post_def lit_def post_lines_def
        convertHtmlToMarkdown_def image_at_def classify_def is_command_def trim_def
        is_js_space_def system_message_here_def)

theorem clearcontext_empties_witness:
  "list_ex (\<lambda>c. includes_str c (lit ''#clearcontext'')) (fst (post_lines sample_translate clear_post))
   \<and> collect sample_translate (7::nat)
        ([\<lparr>post_content = lit ''first'', post_author = lit ''alice''\<rparr>] @ [clear_post]) [] empty_fs
       = (Inr [], empty_fs)
   \<and> collect sample_translate (7::nat)
        ([\<lparr>post_content = lit ''first'', post_author = lit ''alice''\<rparr>] @ clear_post
          # [\<lparr>post_content = lit ''later'', post_author = lit ''clippy''\<rparr>]) [] empty_fs
       = (Inr [\<lparr>role = Assistant, name = Some (lit ''clippy''), content = lit ''later''\<rparr>], empty_fs)"
proof -
  have c: "list_ex (\<lambda>c. includes_str c (lit ''#clearcontext'')) (fst (post_lines sample_translate clear_post))"
    by (simp add: sample_translate_def clear_post_def lit_def post_lines_def
        convertHtmlToMarkdown_def image_at_def classify_def is_command_def)
  have r: "collect sample_translate (7::nat)
        ([\<lparr>post_content = lit ''first'', post_author = lit ''alice''\<rparr>] @ [clear_post]) [] empty_fs
       = (Inr [], empty_fs)"
    by (simp add: sample_translate_def clear_post_def lit_def post_lines_def
        convertHtmlToMarkdown_def image_at_def classify_def is_command_def trim_def
        is_js_space_def system_message_here_def new_message_def sanitize_name_def
        is_name_char_def toLowerCase_def)
  have l: "collect sample_translate (7::nat) [\<lparr>post_content = lit ''later'', post_author = lit ''clippy''\<rparr>]
        [] empty_fs
       = (Inr [\<lparr>role = Assistant, name = Some (lit ''clippy''), content = lit ''later''\<rparr>], empty_fs)"
    by (simp add: sample_translate_def lit_def post_lines_def
        convertHtmlToMarkdown_def image_at_def classify_def is_command_def trim_def
        is_js_space_def system_message_here_def new_message_def sanitize_name_def
        is_name_char_def toLowerCase_def)
  from clearcontext_empties [OF c r, of "[\<lparr>post_content = lit ''later'', post_author = lit ''clippy''\<rparr>]"]
    c r l show ?thesis by simp
qed




section \<open>Properties of the classification of lines\<close>

lemma classify_foldl:
  "foldl (\<lambda>(commands, text) l.
            if is_command l then (commands @ [l], text) else (commands, text @ [l]))
     (cs, ts) lines
   = (cs @ filter is_command lines, ts @ filter (\<lambda>l. \<not> is_command l) lines)"
  by (induction lines arbitrary: cs ts) simp_all

lemma classify_filter:
  "classify lines = (filter is_command lines, filter (\<lambda>l. \<not> is_command l) lines)"
  by (simp add: classify_def classify_foldl)

lemma split_on_not_empty: "split_on sep s \<noteq> []"
  by (induction s) (simp_all add: Let_def)

lemma split_on_no_sep: "x \<in> set (split_on sep s) \<Longrightarrow> sep \<notin> set x"
proof (induction s arbitrary: x)
  case Nil
  then show ?case by simp
next
  case (Cons c cs)
  obtain h t where r: "split_on sep cs = h # t"
    using split_on_not_empty [of sep cs] by (cases "split_on sep cs") auto
  with Cons.IH have "sep \<notin> set h" and "\<And>y. y \<in> set t \<Longrightarrow> sep \<notin> set y"
    by simp_all
  with Cons.prems r show ?case
    by (auto simp: Let_def split: if_splits)
qed

lemma split_on_single: "sep \<notin> set x \<Longrightarrow> split_on sep x = [x]"
  by (induction x) (auto simp: Let_def)

lemma split_on_append: "sep \<notin> set x \<Longrightarrow> split_on sep (x @ sep # s) = x # split_on sep s"
  by (induction x) (auto simp: Let_def)

lemma split_on_join:
  "xs \<noteq> [] \<Longrightarrow> \<forall>x\<in>set xs. sep \<notin> set x \<Longrightarrow> split_on sep (join_with sep xs) = xs"
  by (induction sep xs rule: join_with.induct) (simp_all add: split_on_single split_on_append)

lemma join_split_on: "join_with sep (split_on sep s) = s"
proof (induction s)
  case Nil
  then show ?case by simp
next
  case (Cons c cs)
  obtain h t where r: "split_on sep cs = h # t"
    using split_on_not_empty [of sep cs] by (cases "split_on sep cs") auto
  with Cons.IH show ?case
    by (cases t) (auto simp: Let_def)
qed

lemma hash_first_Nil: "\<not> hash_first []"
  by (simp add: hash_first_def)

lemma hash_later_Nil: "\<not> hash_later []"
  by (simp add: hash_later_def)

lemma hash_later_Cons: "hash_later (c # cs) \<longleftrightarrow> (if c = SPACE then hash_first cs else hash_later cs)"
proof -
  have "hash_later (c # cs) \<longleftrightarrow>
        (\<exists>pre' post. cs = pre' @ HASH # post \<and> last (c # pre') = SPACE)"
  proof
    assume "hash_later (c # cs)"
    then obtain pre post where
      eq: "c # cs = pre @ HASH # post" and ne: "pre \<noteq> []" and sp: "last pre = SPACE"
      unfolding hash_later_def by blast
    from ne obtain d pre' where pre: "pre = d # pre'" by (cases pre) auto
    with eq have "d = c" and "cs = pre' @ HASH # post" by simp_all
    with sp pre show "\<exists>pre' post. cs = pre' @ HASH # post \<and> last (c # pre') = SPACE"
      by blast
  next
    assume "\<exists>pre' post. cs = pre' @ HASH # post \<and> last (c # pre') = SPACE"
    then obtain pre' post where "cs = pre' @ HASH # post" and "last (c # pre') = SPACE"
      by blast
    then have "c # cs = (c # pre') @ HASH # post \<and> c # pre' \<noteq> [] \<and> last (c # pre') = SPACE"
      by simp
    then show "hash_later (c # cs)"
      unfolding hash_later_def by blast
  qed
  also have "\<dots> \<longleftrightarrow> (if c = SPACE then hash_first cs else hash_later cs)"
    unfolding hash_first_def hash_later_def by auto
  finally show ?thesis .
qed

lemma hash_first_Cons: "hash_first (c # cs) \<longleftrightarrow> c = HASH \<or> hash_later (c # cs)"
  unfolding hash_first_def hash_later_def
  by (auto simp: Cons_eq_append_conv)

lemma split_on_hash:
  "list_ex (\<lambda>word. starts_with word [HASH]) (split_on SPACE l) = hash_first l
   \<and> list_ex (\<lambda>word. starts_with word [HASH]) (tl (split_on SPACE l)) = hash_later l"
proof (induction l)
  case Nil
  then show ?case by (simp add: hash_first_Nil hash_later_Nil)
next
  case (Cons c cs)
  obtain h t where r: "split_on SPACE cs = h # t"
    using split_on_not_empty [of SPACE cs] by (cases "split_on SPACE cs") auto
  with Cons.IH show ?case
    by (auto simp: Let_def hash_first_Cons hash_later_Cons)
qed

lemma is_command_iff:
  "is_command l \<longleftrightarrow> (\<exists>pre post. l = pre @ HASH # post \<and> (pre = [] \<or> last pre = SPACE))"
  using split_on_hash [of l] by (simp add: is_command_def hash_first_def)

text \<open>
  Claim C4, as amended: each line of a text goes to the commands or to the prose, never to
  both, in the order of the text. It is a command iff one of the pieces between its
  space characters (U+0020) starts with \<open>#\<close>, that is, iff it has a \<open>#\<close> at its start or
  right after a space; other white space does not separate tokens. The prose lines joined
  with line feeds split again into the same lines.
\<close>

theorem classify_lines:
  assumes "classify (split_on NL markdown) = (commands, prose)"
  shows "commands = filter is_command (split_on NL markdown)
         \<and> prose = filter (\<lambda>l. \<not> is_command l) (split_on NL markdown)
         \<and> (\<forall>l. is_command l
               \<longleftrightarrow> (\<exists>pre post. l = pre @ HASH # post \<and> (pre = [] \<or> last pre = SPACE)))
         \<and> (prose \<noteq> [] \<longrightarrow> split_on NL (join_with NL prose) = prose)"
proof -
  from assms have c: "commands = filter is_command (split_on NL markdown)"
    and p: "prose = filter (\<lambda>l. \<not> is_command l) (split_on NL markdown)"
    by (simp_all add: classify_filter)
  have "\<forall>x\<in>set prose. NL \<notin> set x"
    unfolding p using split_on_no_sep [of _ NL markdown] by simp
  then have r: "prose \<noteq> [] \<longrightarrow> split_on NL (join_with NL prose) = prose"
    by (simp add: split_on_join)
  have i: "\<forall>l. is_command l
               \<longleftrightarrow> (\<exists>pre post. l = pre @ HASH # post \<and> (pre = [] \<or> last pre = SPACE))"
    by (rule allI) (rule is_command_iff)
  from c p i r show ?thesis by (intro conjI)
qed

theorem classify_lines_witness:
  "classify (split_on NL (lit ''hello'' @ NL # lit ''@clippy #clearcontext'' @ NL # lit ''world''))
     = ([lit ''@clippy #clearcontext''], [lit ''hello'', lit ''world''])
   \<and> is_command (lit ''@clippy #clearcontext'')
   \<and> [lit ''hello'', lit ''world''] \<noteq> []
   \<and> split_on NL (join_with NL [lit ''hello'', lit ''world'']) = [lit ''hello'', lit ''world'']"
proof -
  have c: "classify (split_on NL (lit ''hello'' @ NL # lit ''@clippy #clearcontext'' @ NL # lit ''world''))
     = ([lit ''@clippy #clearcontext''], [lit ''hello'', lit ''world''])"
    by (simp add: lit_def classify_def is_command_def)
  have n: "[lit ''hello'', lit ''world''] \<noteq> []"
    by simp
  have h: "\<exists>pre post. lit ''@clippy #clearcontext'' = pre @ HASH # post \<and> (pre = [] \<or> last pre = SPACE)"
  proof (intro exI conjI)
    show "lit ''@clippy #clearcontext'' = lit ''@clippy '' @ HASH # lit ''clearcontext''"
      by (simp add: lit_def)
    show "lit ''@clippy '' = [] \<or> last (lit ''@clippy '') = SPACE"
      by (simp add: lit_def)
  qed
  note t = classify_lines [OF c]
  from t have i: "is_command (lit ''@clippy #clearcontext'')
      \<longleftrightarrow> (\<exists>pre post. lit ''@clippy #clearcontext'' = pre @ HASH # post \<and> (pre = [] \<or> last pre = SPACE))"
    by blast
  from t n have r: "split_on NL (join_with NL [lit ''hello'', lit ''world'']) = [lit ''hello'', lit ''world'']"
    by blast
  from c i h n r show ?thesis by blast
qed

text \<open>
  Claim C4, as stated, fails: in the line \<open>a\<close>, tab, \<open>#b\<close> the token \<open>#b\<close> is delimited by
  white space and starts with \<open>#\<close>, so the line is a directive by the specification's rule;
  the code cuts the line at spaces only, finds no piece that starts with \<open>#\<close>, and keeps
  the line as prose.
\<close>

theorem classify_lines_counterexample:
  "spec_is_directive (lit ''a'' @ 0x09 # lit ''#b'')
   \<and> \<not> is_command (lit ''a'' @ 0x09 # lit ''#b'')
   \<and> classify [lit ''a'' @ 0x09 # lit ''#b''] = ([], [lit ''a'' @ 0x09 # lit ''#b''])"
  by (simp add: lit_def spec_is_directive_def is_command_def classify_def is_js_space_def)

end
